theory Spec2Isabelle
  imports Main "HOL-Library.Word" "HOL-Library.Sublist"
begin

section \<open>Bytes\<close>

text \<open>
  Python \<open>bytes\<close> objects are sequences of integers in the range 0..255; they are
  modelled as lists of 8-bit words. The frame markers of the device are the start marker
  0x3C, the end marker 0x7C and the structural byte 0x5C.
\<close>

type_synonym byte = "8 word"

section \<open>Hex conversion helpers (pantilt_comm.py, pantilt_protocol.py)\<close>

text \<open>
  Errors raised by the Python built-ins used by the helpers. \<open>Unmodelled\<close> marks an
  input on which the model of a built-in does not follow Python (it is never produced
  for a string rendered by \<open>bytes_to_hex_string\<close>).
\<close>

datatype py_error = ValueError | Unmodelled

text \<open>The format specification \<open>02X\<close>: two upper-case hexadecimal digits.\<close>

definition hex_digit :: "nat \<Rightarrow> char" where
  "hex_digit n = (if n < 10 then char_of (48 + n) else char_of (55 + n))"

definition format_02X :: "byte \<Rightarrow> string" where
  "format_02X b = [hex_digit (unat b div 16), hex_digit (unat b mod 16)]"

text \<open>Python's \<open>sep.join(parts)\<close>.\<close>

fun join :: "string \<Rightarrow> string list \<Rightarrow> string" where
  "join sep [] = []"
| "join sep [x] = x"
| "join sep (x # y # ys) = x @ sep @ join sep (y # ys)"

text \<open>
  \<open>bytes_to_hex_string(data) = ' '.join([f"0x{b:02X}" for b in data])\<close>, the same in
  both classes (and \<open>hex_dump\<close> of the simulator); \<open>hex_token\<close> is the f-string.
\<close>

definition hex_token :: "byte \<Rightarrow> string" where
  "hex_token b = ''0x'' @ format_02X b"

definition bytes_to_hex_string :: "byte list \<Rightarrow> string" where
  "bytes_to_hex_string data = join '' '' (map hex_token data)"

text \<open>
  The compact form \<open>3C805C...\<close> that \<open>hex_to_bytes\<close> also accepts: the same two
  digits per byte with neither prefix nor separator.
\<close>

definition compact_hex :: "byte list \<Rightarrow> string" where
  "compact_hex data = concat (map format_02X data)"

text \<open>Value of a hexadecimal digit (either case), as \<open>bytes.fromhex\<close> and \<open>int(_, 16)\<close> read it.\<close>

definition hexval :: "char \<Rightarrow> nat option" where
  "hexval c =
     (let n = (of_char c :: nat) in
      if 48 \<le> n \<and> n \<le> 57 then Some (n - 48)
      else if 65 \<le> n \<and> n \<le> 70 then Some (n - 55)
      else if 97 \<le> n \<and> n \<le> 102 then Some (n - 87)
      else None)"

text \<open>ASCII whitespace, skipped by \<open>bytes.fromhex\<close> between bytes: space, TAB, LF, VT, FF, CR.\<close>

definition ascii_space :: "char \<Rightarrow> bool" where
  "ascii_space c = (let n = (of_char c :: nat) in n = 32 \<or> (9 \<le> n \<and> n \<le> 13))"

text \<open>
  Whitespace for \<open>str.split()\<close> among the characters below 256: the above, the
  separators FS, GS, RS, US, and the characters NEL (133) and NBSP (160).
\<close>

definition str_space :: "char \<Rightarrow> bool" where
  "str_space c =
     (let n = (of_char c :: nat) in
      n = 32 \<or> (9 \<le> n \<and> n \<le> 13) \<or> (28 \<le> n \<and> n \<le> 31) \<or> n = 133 \<or> n = 160)"

text \<open>
  \<open>bytes.fromhex(s)\<close>: whitespace is skipped before each byte, then two hexadecimal
  digits are required; anything else raises \<open>ValueError\<close>.
\<close>

fun fromhex :: "string \<Rightarrow> py_error + byte list" where
  "fromhex [] = Inr []"
| "fromhex [c] = (if ascii_space c then Inr [] else Inl ValueError)"
| "fromhex (c # d # cs) =
     (if ascii_space c then fromhex (d # cs)
      else
        (case hexval c of
           None \<Rightarrow> Inl ValueError
         | Some h \<Rightarrow>
             (case hexval d of
                None \<Rightarrow> Inl ValueError
              | Some l \<Rightarrow>
                  (case fromhex cs of
                     Inl e \<Rightarrow> Inl e
                   | Inr bs \<Rightarrow> Inr (of_nat (16 * h + l) # bs)))))"

text \<open>\<open>s.replace('0x', '')\<close>: occurrences are removed from left to right, without overlap.\<close>

fun replace_0x :: "string \<Rightarrow> string" where
  "replace_0x [] = []"
| "replace_0x [c] = [c]"
| "replace_0x (c # d # cs) =
     (if c = CHR ''0'' \<and> d = CHR ''x'' then replace_0x cs else c # replace_0x (d # cs))"

text \<open>\<open>s.replace(' ', '')\<close>.\<close>

definition remove_spaces :: "string \<Rightarrow> string" where
  "remove_spaces s = filter (\<lambda>c. c \<noteq> CHR '' '') s"

text \<open>
  \<open>PanTiltConnector.hex_to_bytes\<close> (pantilt_comm.py):
  \<open>bytes.fromhex(hex_string.replace('0x', '').replace(' ', ''))\<close>.
\<close>

definition comm_hex_to_bytes :: "string \<Rightarrow> py_error + byte list" where
  "comm_hex_to_bytes hex_string = fromhex (remove_spaces (replace_0x hex_string))"

text \<open>\<open>s.split()\<close> without arguments: the maximal runs of non-whitespace characters.\<close>

fun split_acc :: "string \<Rightarrow> string \<Rightarrow> string list" where
  "split_acc [] w = (if w = [] then [] else [w])"
| "split_acc (c # cs) w =
     (if str_space c then (if w = [] then split_acc cs [] else w # split_acc cs [])
      else split_acc cs (w @ [c]))"

definition split :: "string \<Rightarrow> string list" where
  "split s = split_acc s []"

fun digits_value :: "string \<Rightarrow> nat \<Rightarrow> nat option" where
  "digits_value [] acc = Some acc"
| "digits_value (c # cs) acc =
     (case hexval c of None \<Rightarrow> None | Some d \<Rightarrow> digits_value cs (16 * acc + d))"

text \<open>
  \<open>int(h, 16)\<close> on a token without whitespace: an optional sign, an optional prefix
  \<open>0x\<close> or \<open>0X\<close>, then at least one hexadecimal digit. Python also allows single
  underscores between digits; tokens with an underscore are left unmodelled.
\<close>

definition int16 :: "string \<Rightarrow> py_error + int" where
  "int16 h =
     (let neg = prefix ''-'' h;
          r1 = (if prefix ''-'' h \<or> prefix ''+'' h then tl h else h);
          r2 = (if prefix ''0x'' r1 \<or> prefix ''0X'' r1 then drop 2 r1 else r1)
      in if r2 = [] then Inl ValueError
         else if CHR ''_'' \<in> set r2 then Inl Unmodelled
         else (case digits_value r2 0 of
                 None \<Rightarrow> Inl ValueError
               | Some v \<Rightarrow> Inr (if neg then - int v else int v)))"

text \<open>
  \<open>bytes([int(h, 16) for h in tokens])\<close>: the comprehension stops at the first token
  that \<open>int\<close> rejects, and \<open>bytes\<close> raises \<open>ValueError\<close> for a value outside
  \<open>range(256)\<close>.
\<close>

fun ints_of_tokens :: "string list \<Rightarrow> py_error + int list" where
  "ints_of_tokens [] = Inr []"
| "ints_of_tokens (h # hs) =
     (case int16 h of
        Inl e \<Rightarrow> Inl e
      | Inr v \<Rightarrow> (case ints_of_tokens hs of Inl e \<Rightarrow> Inl e | Inr vs \<Rightarrow> Inr (v # vs)))"

definition bytes_of_ints :: "int list \<Rightarrow> py_error + byte list" where
  "bytes_of_ints vs =
     (if list_all (\<lambda>v. 0 \<le> v \<and> v < 256) vs then Inr (map of_int vs) else Inl ValueError)"

text \<open>
  \<open>PanTiltProtocol.hex_to_bytes\<close> (pantilt_protocol.py; \<open>HexTerminal.send_hex\<close> converts
  the same way).
\<close>

definition protocol_hex_to_bytes :: "string \<Rightarrow> py_error + byte list" where
  "protocol_hex_to_bytes hex_string =
     (if prefix ''0x'' hex_string then
        (case ints_of_tokens (split hex_string) of
           Inl e \<Rightarrow> Inl e
         | Inr vs \<Rightarrow> bytes_of_ints vs)
      else fromhex (remove_spaces hex_string))"

section \<open>The serial port and its environment\<close>

datatype parity = PARITY_NONE | PARITY_EVEN | PARITY_ODD

datatype stopbits = STOPBITS_ONE | STOPBITS_ONE_POINT_FIVE | STOPBITS_TWO

record config =
  baudrate :: int
  parity :: parity
  stopbits :: stopbits
  rtscts :: bool

text \<open>
  What the scripts do to the port, in program order. \<open>Write\<close> is one successful
  \<open>ser.write\<close> call with its data, \<open>Sleep\<close> a \<open>time.sleep\<close> in milliseconds, and
  \<open>Recv\<close> closes a receive loop with the bytes it returns, and \<open>Polled\<close> is a direct
  \<open>ser.read(ser.in_waiting)\<close> outside a receive loop that found the given bytes.
\<close>

datatype port_op =
    Opened config
  | Closed
  | Write "byte list"
  | Flush
  | Sleep nat
  | SetRTS bool
  | SetDTR bool
  | ResetBuffers
  | Recv "byte list"
  | Polled "byte list"

text \<open>
  The log lines and transaction records the claims refer to: \<open>Sending\<close> is the
  \<open>logging.info("Sending <name> ...")\<close> of the senders of pantilt_comm.py,
  \<open>Toggling\<close> the line written by \<open>toggle_rts_dtr\<close>, \<open>TX\<close>/\<open>RX\<close> the entries of
  the simulator's \<open>transaction_log\<close>, \<open>Trying\<close> the announcement of a candidate
  configuration, and \<open>Attempt\<close> the banner \<open>Attempt k: ...\<close> of the protocol analyzer.
\<close>

datatype log_entry =
    Sending string
  | Toggling
  | TX string "byte list"
  | RX string "byte list"
  | Trying config
  | Attempt nat

record world =
  ops :: "port_op list"
  log :: "log_entry list"
  is_open :: bool
  rts :: bool
  dtr :: bool
  cfg :: "config option"

text \<open>
  Everything outside the program is a parameter. Each component is asked at the moment
  the program reaches the corresponding call and may depend on everything done so far:
  \<^item> \<open>rx\<close>: for a receive loop starting now, the number of loop iterations that begin
    before the wall-clock deadline, and the bytes that become available to each
    successive poll (beyond the list nothing arrives);
  \<^item> \<open>wr_ok\<close>: whether a \<open>write\<close> and its \<open>flush\<close> succeed now;
  \<^item> \<open>open_ok\<close>: whether \<open>serial.Serial(...)\<close> succeeds now;
  \<^item> \<open>operator\<close>: whether the operator answers \<open>y\<close> to the prompt now.
  Reads never raise.
\<close>

record env =
  rx :: "world \<Rightarrow> nat \<times> byte list list"
  wr_ok :: "world \<Rightarrow> bool"
  open_ok :: "world \<Rightarrow> bool"
  operator :: "world \<Rightarrow> bool"

definition do_op :: "port_op \<Rightarrow> world \<Rightarrow> world" where
  "do_op x w = w\<lparr>ops := ops w @ [x]\<rparr>"

definition do_log :: "log_entry \<Rightarrow> world \<Rightarrow> world" where
  "do_log x w = w\<lparr>log := log w @ [x]\<rparr>"

text \<open>
  \<open>ser.write(data); ser.flush()\<close>: \<open>None\<close> when the pair raises. The scripts write
  only after they have found the port open.
\<close>

definition port_write :: "env \<Rightarrow> byte list \<Rightarrow> world \<Rightarrow> world option" where
  "port_write e data w =
     (if wr_ok e w then Some (do_op Flush (do_op (Write data) w)) else None)"

section \<open>Senders\<close>

subsection \<open>pantilt_comm.py: send_command and send_bytes_with_delay\<close>


text \<open>
  The loop \<open>for i, byte in enumerate(command_bytes)\<close>; the delay is skipped after the
  last byte (\<open>i < len(command_bytes) - 1\<close>).
\<close>

fun send_bytes_loop :: "env \<Rightarrow> nat \<Rightarrow> byte list \<Rightarrow> world \<Rightarrow> bool \<times> world" where
  "send_bytes_loop e delay_ms [] w = (True, w)"
| "send_bytes_loop e delay_ms (b # bs) w =
     (case port_write e [b] w of
        None \<Rightarrow> (False, w)
      | Some w1 \<Rightarrow>
          send_bytes_loop e delay_ms bs (if bs \<noteq> [] then do_op (Sleep delay_ms) w1 else w1))"

definition send_bytes_with_delay ::
  "env \<Rightarrow> string \<Rightarrow> string \<Rightarrow> nat \<Rightarrow> world \<Rightarrow> bool \<times> world" where
  "send_bytes_with_delay e command_name hex_command delay_ms w =
     (case comm_hex_to_bytes hex_command of
        Inl err \<Rightarrow> (False, w)
      | Inr command_bytes \<Rightarrow>
          (case send_bytes_loop e delay_ms command_bytes (do_log (Sending command_name) w) of
             (False, w1) \<Rightarrow> (False, w1)
           | (True, w1) \<Rightarrow> (True, do_op (Sleep 20) w1)))"

subsection \<open>pantilt_protocol.py: send_command_with_precise_timing\<close>

text \<open>The outcome of a call that has no exception handler of its own.\<close>

datatype 'a outcome = Returned 'a | Raised

text \<open>
  The loop over the remaining bytes: write, flush, then 10 ms after the byte 0x5C and
  \<open>byte_delay_ms\<close> after any other byte.
\<close>

fun send_remaining :: "env \<Rightarrow> nat \<Rightarrow> byte list \<Rightarrow> world \<Rightarrow> bool \<times> world" where
  "send_remaining e byte_delay_ms [] w = (True, w)"
| "send_remaining e byte_delay_ms (b # bs) w =
     (case port_write e [b] w of
        None \<Rightarrow> (False, w)
      | Some w1 \<Rightarrow>
          send_remaining e byte_delay_ms bs
            (do_op (Sleep (if b = 0x5C then 10 else byte_delay_ms)) w1))"

definition send_command_with_precise_timing ::
  "env \<Rightarrow> byte list \<Rightarrow> nat \<Rightarrow> world \<Rightarrow> bool outcome \<times> world" where
  "send_command_with_precise_timing e command_bytes byte_delay_ms w =
     (if \<not> is_open w then (Returned False, w)
      else
        (case (if command_bytes \<noteq> [] \<and> hd command_bytes = 0x3C
               then (case port_write e [hd command_bytes] w of
                       None \<Rightarrow> (False, w, command_bytes)
                     | Some w1 \<Rightarrow> (True, do_op (Sleep 20) w1, tl command_bytes))
               else (True, w, command_bytes)) of
           (False, w1, rest) \<Rightarrow> (Raised, w1)
         | (True, w1, rest) \<Rightarrow>
             (case send_remaining e byte_delay_ms rest w1 of
                (False, w2) \<Rightarrow> (Raised, w2)
              | (True, w2) \<Rightarrow> (Returned True, do_op (Sleep 20) w2))))"

section \<open>pantilt_simulator.py: compare_response\<close>

text \<open>
  \<open>compare_response(actual, expected)\<close> returns a boolean and reports everything else
  through the logger. The record holds the return value (\<open>equal\<close>) together with the
  diagnostics the function logs: the two lengths, whether the length-mismatch warning
  is issued, and the local list \<open>differences\<close>. On the early return for identical
  inputs nothing is compared position by position and no warning is issued.
\<close>

record match_result =
  equal :: bool
  length_actual :: nat
  length_expected :: nat
  length_mismatch :: bool
  diff_positions :: "nat list"

text \<open>The loop \<open>for i in range(min_len): if actual[i] != expected[i]: differences.append(i)\<close>.\<close>

fun find_differences :: "byte list \<Rightarrow> byte list \<Rightarrow> nat list \<Rightarrow> nat list \<Rightarrow> nat list" where
  "find_differences actual expected [] differences = differences"
| "find_differences actual expected (i # is) differences =
     find_differences actual expected is
       (if actual ! i \<noteq> expected ! i then differences @ [i] else differences)"

definition compare_response :: "byte list \<Rightarrow> byte list \<Rightarrow> match_result" where
  "compare_response actual expected =
     (if actual = expected then
        \<lparr>equal = True, length_actual = length actual, length_expected = length expected,
         length_mismatch = False, diff_positions = []\<rparr>
      else
        (let min_len = min (length actual) (length expected) in
         \<lparr>equal = False, length_actual = length actual, length_expected = length expected,
          length_mismatch = (length actual \<noteq> length expected),
          diff_positions = find_differences actual expected [0..<min_len] []\<rparr>))"

section \<open>Delay policies and test fixtures\<close>

text \<open>
  The operations of a sender that writes and flushes every byte on its own and then does
  \<open>f i b\<close> after the byte \<open>b\<close> at index \<open>i\<close>.
\<close>

fun byte_ops :: "(nat \<Rightarrow> byte \<Rightarrow> port_op list) \<Rightarrow> nat \<Rightarrow> byte list \<Rightarrow> port_op list" where
  "byte_ops f i [] = []"
| "byte_ops f i (b # bs) = Write [b] # Flush # f i b @ byte_ops f (Suc i) bs"

text \<open>
  The delay the specification of the Paced Sender prescribes after the byte \<open>b\<close> at
  index \<open>i\<close>: 20 ms after a leading start marker, 10 ms after 0x5C, the uniform
  delay \<open>d\<close> otherwise.
\<close>

definition claimed_delay :: "nat \<Rightarrow> nat \<Rightarrow> byte \<Rightarrow> nat" where
  "claimed_delay d i b = (if i = 0 \<and> b = 0x3C then 20 else if b = 0x5C then 10 else d)"

text \<open>An open port on which nothing has happened yet.\<close>

definition fresh_world :: world where
  "fresh_world = \<lparr>ops = [], log = [], is_open = True, rts = False, dtr = False, cfg = None\<rparr>"


text \<open>A device that accepts every write and never answers; the operator declines.\<close>

definition silent_env :: env where
  "silent_env = \<lparr>rx = (\<lambda>w. (1, [])), wr_ok = (\<lambda>w. True),
     open_ok = (\<lambda>w. True), operator = (\<lambda>w. False)\<rparr>"

section \<open>Receivers\<close>

text \<open>Why a receive loop ended.\<close>

datatype stop_reason = Deadline | EndMarker | ByteCount

text \<open>The bytes that the next poll finds; \<open>tl\<close> gives the arrivals left after it.\<close>

definition next_arrival :: "byte list list \<Rightarrow> byte list" where
  "next_arrival arr = (case arr of [] \<Rightarrow> [] | a # _ \<Rightarrow> a)"

text \<open>Python's \<open>needle in haystack\<close> on \<open>bytes\<close>: a contiguous occurrence.\<close>

fun bytes_in :: "byte list \<Rightarrow> byte list \<Rightarrow> bool" where
  "bytes_in needle [] = (needle = [])"
| "bytes_in needle (x # xs) = (prefix needle (x # xs) \<or> bytes_in needle xs)"

text \<open>
  The early-exit test of \<open>receive_response\<close>:
  \<open>expected_end and expected_end in response and len(response) >= min_bytes\<close>.
\<close>

definition end_seen :: "int \<Rightarrow> byte list option \<Rightarrow> byte list \<Rightarrow> bool" where
  "end_seen min_bytes expected_end response =
     (case expected_end of
        None \<Rightarrow> False
      | Some e \<Rightarrow> e \<noteq> [] \<and> bytes_in e response \<and> min_bytes \<le> int (length response))"

subsection \<open>pantilt_comm.py and pantilt_protocol.py: receive_response\<close>

text \<open>
  The loop \<open>while (time.time() - start_time) < timeout\<close>. The first argument counts the
  iterations that still begin before the deadline. Every poll reads all waiting bytes
  (\<open>ser.read(ser.in_waiting)\<close>). On the early exit the loop sleeps 50 ms and drains
  once more. The result is the response, the number of polls made, and the reason for
  stopping.
\<close>

fun receive_loop ::
  "nat \<Rightarrow> int \<Rightarrow> byte list option \<Rightarrow> byte list list \<Rightarrow> byte list \<Rightarrow> nat
     \<Rightarrow> byte list \<times> nat \<times> stop_reason" where
  "receive_loop 0 min_bytes expected_end arr response k = (response, k, Deadline)"
| "receive_loop (Suc n) min_bytes expected_end arr response k =
     (let new_data = next_arrival arr in
      if new_data \<noteq> [] then
        (if end_seen min_bytes expected_end (response @ new_data)
         then (response @ new_data @ next_arrival (tl arr), k + 2, EndMarker)
         else receive_loop n min_bytes expected_end (tl arr) (response @ new_data) (Suc k))
      else receive_loop n min_bytes expected_end (tl arr) response (Suc k))"



subsection \<open>pantilt_simulator.py: read_response\<close>

text \<open>
  The loop \<open>while time.time() - start_time < timeout and len(buffer) < max_bytes\<close>.
  Every iteration reads at most one byte (\<open>ser.read(1)\<close>), so the bytes that have
  arrived and are not read yet wait in the queue \<open>q\<close>. The result is \<open>buffer\<close>,
  \<open>raw_buffer\<close> and the reason for stopping.
\<close>

fun read_loop ::
  "nat \<Rightarrow> int \<Rightarrow> byte list \<Rightarrow> byte list list \<Rightarrow> bool \<Rightarrow> byte list \<Rightarrow> byte list
     \<Rightarrow> byte list \<times> byte list \<times> stop_reason" where
  "read_loop 0 max_bytes q arr found_start buffer raw_buffer = (buffer, raw_buffer, Deadline)"
| "read_loop (Suc n) max_bytes q arr found_start buffer raw_buffer =
     (if \<not> int (length buffer) < max_bytes then (buffer, raw_buffer, ByteCount)
      else
        (case q @ next_arrival arr of
           [] \<Rightarrow> read_loop n max_bytes [] (tl arr) found_start buffer raw_buffer
         | b # q' \<Rightarrow>
             (if \<not> found_start \<and> b = 0x3C
              then read_loop n max_bytes q' (tl arr) True [b] (raw_buffer @ [b])
              else if found_start
              then (if b = 0x7C then (buffer @ [b], raw_buffer @ [b], EndMarker)
                    else read_loop n max_bytes q' (tl arr) True (buffer @ [b]) (raw_buffer @ [b]))
              else read_loop n max_bytes q' (tl arr) found_start buffer (raw_buffer @ [b]))))"

text \<open>
  After the loop: without a framed buffer the raw bytes are returned
  (\<open>return raw_buffer if raw_buffer else b''\<close>); otherwise the buffer is recorded in
  the transaction log and returned. The comparison with the expected response only
  logs. \<open>expected_type\<close> is the label (\<open>'unknown'\<close> stands for \<open>None\<close>).
\<close>

definition read_response :: "env \<Rightarrow> string \<Rightarrow> int \<Rightarrow> world \<Rightarrow> byte list \<times> world" where
  "read_response e expected_type max_bytes w =
     (case rx e w of (n, arr) \<Rightarrow>
        (case read_loop n max_bytes [] arr False [] [] of (buffer, raw_buffer, why) \<Rightarrow>
           (if buffer = [] then (raw_buffer, do_op (Recv raw_buffer) w)
            else (buffer, do_log (RX expected_type buffer) (do_op (Recv buffer) w)))))"

text \<open>
  What a reader that takes one byte per poll gets in \<open>n\<close> polls when nothing but the
  deadline stops it; \<open>q\<close> holds the bytes that have arrived and are not read yet. This
  is the yardstick for \<open>read_loop\<close>, not a part of the program.
\<close>

fun readable :: "nat \<Rightarrow> byte list \<Rightarrow> byte list list \<Rightarrow> byte list" where
  "readable 0 q arr = []"
| "readable (Suc n) q arr =
     (case q @ next_arrival arr of
        [] \<Rightarrow> readable n [] (tl arr)
      | b # q' \<Rightarrow> b # readable n q' (tl arr))"

text \<open>The completeness test of \<open>read_response\<close>: \<open>buffer.endswith(b'\x7C')\<close>.\<close>

definition complete :: "byte list \<Rightarrow> bool" where
  "complete buffer = (buffer \<noteq> [] \<and> last buffer = 0x7C)"

text \<open>
  A device whose every receive sees the given bytes arrive in one burst at the first
  poll, with \<open>n\<close> polls before the deadline.
\<close>

definition burst_env :: "nat \<Rightarrow> byte list \<Rightarrow> env" where
  "burst_env n wire = \<lparr>rx = (\<lambda>w. (n, [wire])), wr_ok = (\<lambda>w. True),
     open_ok = (\<lambda>w. True), operator = (\<lambda>w. False)\<rparr>"

section \<open>pantilt_comm.py: the connector\<close>














text \<open>
  Step 1 of \<open>run_test_sequence\<close>, from the first initialization send to the decision
  whether the heartbeat cycle is entered. \<open>SendFailed\<close> and \<open>NoResponse\<close> are the two
  ways in which the method returns \<open>False\<close> here.
\<close>

datatype init_result = Responded | SendFailed | NoResponse









section \<open>pantilt_simulator.py: the controller and the sweep of main\<close>

definition sync_bytes :: "byte list" where
  "sync_bytes = [0x3C]"

definition initialization_bytes :: "byte list" where
  "initialization_bytes =
     [0x3C, 0x80, 0x5C, 0xC0, 0x5C, 0x70, 0x5C, 0x60, 0x5C, 0x82, 0xCA, 0xF8, 0xF8, 0x0C, 0x0C,
      0x9C, 0xCC, 0xAC, 0x9C, 0x8C, 0x8C, 0x5C, 0x78, 0x5C, 0xE2, 0x7C]"

definition heartbeat_bytes :: "byte list" where
  "heartbeat_bytes =
     [0x3C, 0x80, 0x5C, 0xC0, 0x5C, 0xB0, 0x5C, 0x60, 0x5C, 0xCA, 0x2A, 0x18, 0x00, 0x00, 0x0C,
      0x0C, 0x9C, 0xCC, 0xAC, 0x9C, 0x5C, 0x08, 0x5C, 0xE2, 0x7C]"

text \<open>The dictionary \<open>COMMANDS\<close>.\<close>

definition COMMANDS :: "(string \<times> byte list) list" where
  "COMMANDS =
     [(''sync'', sync_bytes), (''initialization'', initialization_bytes),
      (''heartbeat'', heartbeat_bytes)]"

text \<open>
  \<open>send_command(command_type)\<close>: an unknown type returns \<open>False\<close> at once; otherwise
  the transaction is logged, stale input is read away (which only logs) and the table
  entry is written as it is. An exception gives \<open>False\<close>.
\<close>

definition sim_send_command :: "env \<Rightarrow> string \<Rightarrow> world \<Rightarrow> bool \<times> world" where
  "sim_send_command e command_type w =
     (case map_of COMMANDS command_type of
        None \<Rightarrow> (False, w)
      | Some command \<Rightarrow>
          (let w1 = do_log (TX command_type command) w in
           case port_write e command w1 of
             None \<Rightarrow> (False, w1)
           | Some w2 \<Rightarrow> (True, w2)))"

text \<open>
  The marker invariant of the specification's \<open>encode\<close>: the bytes start with 0x3C and
  end with 0x7C.
\<close>

definition marker_invariant :: "byte list \<Rightarrow> bool" where
  "marker_invariant bs = (bs \<noteq> [] \<and> hd bs = 0x3C \<and> last bs = 0x7C)"

text \<open>The sync rounds of \<open>connect\<close>: \<open>for _ in range(3)\<close>, leaving at the first response.\<close>

fun sim_sync_loop :: "env \<Rightarrow> nat \<Rightarrow> world \<Rightarrow> world" where
  "sim_sync_loop e 0 w = w"
| "sim_sync_loop e (Suc k) w =
     (case sim_send_command e ''sync'' w of (sent, w1) \<Rightarrow>
        (case read_response e ''sync'' 50 w1 of (response, w2) \<Rightarrow>
           if response \<noteq> [] then w2 else sim_sync_loop e k (do_op (Sleep 500) w2)))"

definition sim_connect :: "env \<Rightarrow> config \<Rightarrow> world \<Rightarrow> bool \<times> world" where
  "sim_connect e c w =
     (if open_ok e w
      then (True,
            do_op (Sleep 2000)
              (sim_sync_loop e 3
                 (do_op ResetBuffers (do_op (Opened c) (w\<lparr>is_open := True, cfg := Some c\<rparr>)))))
      else (False, w))"

definition sim_disconnect :: "world \<Rightarrow> world" where
  "sim_disconnect w = (if is_open w then (do_op Closed w)\<lparr>is_open := False\<rparr> else w)"

text \<open>
  Step 1 of the loop body of \<open>main\<close>: send the initialization command and test the
  response for truth.
\<close>

definition sim_init_step :: "env \<Rightarrow> world \<Rightarrow> init_result \<times> world" where
  "sim_init_step e w =
     (case sim_send_command e ''initialization'' w of
        (False, w1) \<Rightarrow> (SendFailed, w1)
      | (True, w1) \<Rightarrow>
          (case read_response e ''initialization'' 50 w1 of (response, w2) \<Rightarrow>
             if response \<noteq> [] then (Responded, w2) else (NoResponse, w2)))"

text \<open>
  Step 2: \<open>for i in range(3)\<close> with \<open>success = False; break\<close> at the first heartbeat
  that cannot be sent or is not answered.
\<close>

fun sim_heartbeat_cycle :: "env \<Rightarrow> nat \<Rightarrow> world \<Rightarrow> bool \<times> world" where
  "sim_heartbeat_cycle e 0 w = (True, w)"
| "sim_heartbeat_cycle e (Suc k) w =
     (case sim_send_command e ''heartbeat'' w of
        (False, w1) \<Rightarrow> (False, w1)
      | (True, w1) \<Rightarrow>
          (case read_response e ''heartbeat'' 50 w1 of (response, w2) \<Rightarrow>
             if response \<noteq> [] then sim_heartbeat_cycle e k (do_op (Sleep 1000) w2)
             else (False, w2)))"

text \<open>
  One candidate configuration: the body of the \<open>for\<close> loop of \<open>main\<close>. A failed
  \<open>connect\<close> skips the candidate; after a successful one the \<open>finally\<close> clause
  disconnects on every path. An operator interrupt is not modelled.
\<close>

datatype attempt_result = ConnectFailed | InitSendFailed | NoInitResponse | HeartbeatFailed | Working

definition sim_attempt :: "env \<Rightarrow> config \<Rightarrow> world \<Rightarrow> attempt_result \<times> world" where
  "sim_attempt e c w =
     (case sim_connect e c (do_log (Trying c) w) of
        (False, w1) \<Rightarrow> (ConnectFailed, w1)
      | (True, w1) \<Rightarrow>
          (case sim_init_step e w1 of
             (SendFailed, w2) \<Rightarrow> (InitSendFailed, sim_disconnect w2)
           | (NoResponse, w2) \<Rightarrow> (NoInitResponse, sim_disconnect w2)
           | (Responded, w2) \<Rightarrow>
               (case sim_heartbeat_cycle e 3 w2 of
                  (True, w3) \<Rightarrow> (Working, sim_disconnect w3)
                | (False, w3) \<Rightarrow> (HeartbeatFailed, sim_disconnect w3))))"

text \<open>
  The sweep of \<open>main\<close> over \<open>configs_to_try\<close>: \<open>continue\<close> after a failed candidate,
  \<open>break\<close> after the first working one. The result lists the candidates attempted
  with their outcomes.
\<close>

fun sim_sweep :: "env \<Rightarrow> config list \<Rightarrow> world \<Rightarrow> (config \<times> attempt_result) list \<times> world" where
  "sim_sweep e [] w = ([], w)"
| "sim_sweep e (c # cs) w =
     (case sim_attempt e c w of (r, w1) \<Rightarrow>
        if r = Working then ([(c, r)], w1)
        else (case sim_sweep e cs w1 of (rs, w2) \<Rightarrow> ((c, r) # rs, w2)))"

definition configs_to_try :: "int \<Rightarrow> config list" where
  "configs_to_try baud =
     [\<lparr>baudrate = baud, parity = PARITY_NONE, stopbits = STOPBITS_ONE, rtscts = False\<rparr>,
      \<lparr>baudrate = baud, parity = PARITY_EVEN, stopbits = STOPBITS_ONE, rtscts = False\<rparr>,
      \<lparr>baudrate = baud, parity = PARITY_ODD, stopbits = STOPBITS_ONE, rtscts = False\<rparr>,
      \<lparr>baudrate = baud, parity = PARITY_NONE, stopbits = STOPBITS_TWO, rtscts = False\<rparr>,
      \<lparr>baudrate = baud, parity = PARITY_EVEN, stopbits = STOPBITS_TWO, rtscts = False\<rparr>,
      \<lparr>baudrate = baud, parity = PARITY_ODD, stopbits = STOPBITS_TWO, rtscts = False\<rparr>]"

definition sim_main :: "env \<Rightarrow> int \<Rightarrow> world \<Rightarrow> (config \<times> attempt_result) list \<times> world" where
  "sim_main e baud w = sim_sweep e (configs_to_try baud) w"

section \<open>pantilt_protocol.py: execute_initialization_sequence\<close>













section \<open>Observations on a run\<close>











section \<open>Device stubs\<close>




section \<open>Verified properties\<close>

subsection \<open>compare_response\<close>

lemma find_differences_filter:
  "find_differences actual expected is acc =
     acc @ filter (\<lambda>i. actual ! i \<noteq> expected ! i) is"
  by (induction "is" arbitrary: acc) simp_all

text \<open>
  Claim C7. The comparison reports \<open>equal\<close> exactly when the two byte sequences are
  identical; \<open>diff_positions\<close> is exactly the ascending list of the indices below
  the shorter length at which the bytes differ; the length mismatch is reported on its
  own (whenever the lengths differ) next to the position comparison; and for
  actual = 3C 80 5C against expected = 3C 81 5C the result is not equal, with the single
  differing position 1.
\<close>

theorem compare_response_correct:
  "equal (compare_response actual expected) = (actual = expected)
   \<and> diff_positions (compare_response actual expected) =
       filter (\<lambda>i. actual ! i \<noteq> expected ! i) [0..<min (length actual) (length expected)]
   \<and> sorted (diff_positions (compare_response actual expected))
   \<and> distinct (diff_positions (compare_response actual expected))
   \<and> set (diff_positions (compare_response actual expected)) =
       {i. i < min (length actual) (length expected) \<and> actual ! i \<noteq> expected ! i}
   \<and> length_mismatch (compare_response actual expected) =
       (length actual \<noteq> length expected)
   \<and> length_actual (compare_response actual expected) = length actual
   \<and> length_expected (compare_response actual expected) = length expected
   \<and> equal (compare_response [0x3C, 0x80, 0x5C] [0x3C, 0x81, 0x5C]) = False
   \<and> diff_positions (compare_response [0x3C, 0x80, 0x5C] [0x3C, 0x81, 0x5C]) = [1]"
proof -
  let ?m = "min (length actual) (length expected)"
  let ?f = "filter (\<lambda>i. actual ! i \<noteq> expected ! i) [0..<?m]"
  have d: "diff_positions (compare_response actual expected) = ?f"
    by (simp add: compare_response_def find_differences_filter Let_def)
  have s: "sorted ?f" by (rule sorted_wrt_filter) simp
  have di: "distinct ?f" by simp
  have st: "set ?f = {i. i < ?m \<and> actual ! i \<noteq> expected ! i}" by auto
  have e: "equal (compare_response actual expected) = (actual = expected)"
    by (simp add: compare_response_def Let_def)
  have lm: "length_mismatch (compare_response actual expected) =
       (length actual \<noteq> length expected)"
    by (auto simp add: compare_response_def Let_def)
  have la: "length_actual (compare_response actual expected) = length actual"
    by (simp add: compare_response_def Let_def)
  have le: "length_expected (compare_response actual expected) = length expected"
    by (simp add: compare_response_def Let_def)
  have c1: "equal (compare_response [0x3C, 0x80, 0x5C] [0x3C, 0x81, 0x5C]) = False"
    by (simp add: compare_response_def Let_def)
  have up: "[0..<3] = [0, 1, 2]" by (simp add: upt_rec)
  have c2: "diff_positions (compare_response [0x3C, 0x80, 0x5C] [0x3C, 0x81, 0x5C]) = [1]"
    by (simp add: compare_response_def Let_def up)
  show ?thesis
    unfolding d using s di st e lm la le c1 c2 d by simp
qed

subsection \<open>Hex conversion\<close>

lemma of_char_hex_digit:
  "n < 16 \<Longrightarrow> (of_char (hex_digit n) :: nat) = (if n < 10 then 48 + n else 55 + n)"
  by (simp add: hex_digit_def of_char_of)

lemma hexval_hex_digit: "n < 16 \<Longrightarrow> hexval (hex_digit n) = Some n"
  by (simp add: hexval_def of_char_hex_digit Let_def)

lemma ascii_space_hex_digit: "n < 16 \<Longrightarrow> \<not> ascii_space (hex_digit n)"
  by (simp add: ascii_space_def of_char_hex_digit Let_def)

lemma str_space_hex_digit: "n < 16 \<Longrightarrow> \<not> str_space (hex_digit n)"
  by (simp add: str_space_def of_char_hex_digit Let_def)

lemma hex_digit_neq:
  assumes "n < 16"
  shows "hex_digit n \<noteq> CHR ''x''" "hex_digit n \<noteq> CHR '' ''" "hex_digit n \<noteq> CHR ''_''"
    "hex_digit n \<noteq> CHR ''-''" "hex_digit n \<noteq> CHR ''+''" "hex_digit n \<noteq> CHR ''X''"
proof -
  have *: "\<And>c. (of_char c :: nat) \<noteq> of_char (hex_digit n) \<Longrightarrow> hex_digit n \<noteq> c"
    by auto
  show "hex_digit n \<noteq> CHR ''x''" "hex_digit n \<noteq> CHR '' ''" "hex_digit n \<noteq> CHR ''_''"
    "hex_digit n \<noteq> CHR ''-''" "hex_digit n \<noteq> CHR ''+''"  "hex_digit n \<noteq> CHR ''X''"
    using assms by (auto intro!: * simp add: of_char_hex_digit split: if_splits)
qed

lemma nibbles: "unat (b::byte) div 16 < 16" "unat b mod 16 < 16"
proof -
  have "unat b < 256" using unsigned_less [of b, where 'a=nat] by simp
  then show "unat b div 16 < 16" by simp
  show "unat b mod 16 < 16" by simp
qed

lemma fromhex_format_02X:
  "fromhex (format_02X b @ rest) =
     (case fromhex rest of Inl e \<Rightarrow> Inl e | Inr bs \<Rightarrow> Inr (b # bs))"
  by (cases "fromhex rest")
    (simp_all add: format_02X_def hexval_hex_digit ascii_space_hex_digit nibbles)

lemma fromhex_compact: "fromhex (compact_hex bs) = Inr bs"
  by (induction bs) (simp_all add: compact_hex_def fromhex_format_02X)

lemma replace_0x_format_02X:
  "rest = [] \<or> hd rest \<noteq> CHR ''x'' \<Longrightarrow>
   replace_0x (format_02X b @ rest) = format_02X b @ replace_0x rest"
  by (cases rest) (simp_all add: format_02X_def hex_digit_neq nibbles)

lemma replace_0x_hex_token:
  "rest = [] \<or> hd rest \<noteq> CHR ''x'' \<Longrightarrow>
   replace_0x (hex_token b @ rest) = format_02X b @ replace_0x rest"
  using replace_0x_format_02X [of rest b] by (simp add: hex_token_def)

lemma replace_0x_space_hex_token:
  "replace_0x (CHR '' '' # hex_token c @ rest) = CHR '' '' # replace_0x (hex_token c @ rest)"
  by (simp add: hex_token_def)

lemma join_hex_token_Cons:
  "join '' '' (map hex_token (c # bs)) = hex_token c @ (if bs = [] then [] else CHR '' '' # join '' '' (map hex_token bs))"
  by (cases bs) simp_all

lemma replace_0x_rendering:
  "replace_0x (join '' '' (map hex_token bs)) = join '' '' (map format_02X bs)"
proof (induction bs rule: induct_list012)
  case 1
  show ?case by simp
next
  case (2 b)
  show ?case using replace_0x_hex_token [of "[]" b] by simp
next
  case (3 b c bs)
  let ?tail = "join '' '' (map hex_token (c # bs))"
  have "replace_0x (hex_token b @ CHR '' '' # ?tail)
        = format_02X b @ replace_0x (CHR '' '' # ?tail)"
    by (rule replace_0x_hex_token) simp
  also have "replace_0x (CHR '' '' # ?tail) = CHR '' '' # replace_0x ?tail"
    unfolding join_hex_token_Cons by (rule replace_0x_space_hex_token)
  also have "replace_0x ?tail = join '' '' (map format_02X (c # bs))"
    by (rule 3)
  finally show ?case by simp
qed

lemma remove_spaces_format_02X: "remove_spaces (format_02X b) = format_02X b"
  by (simp add: remove_spaces_def format_02X_def hex_digit_neq nibbles)

lemma remove_spaces_join:
  "remove_spaces (join '' '' (map format_02X bs)) = compact_hex bs"
proof (induction bs rule: induct_list012)
  case (3 b c bs)
  then show ?case
    using remove_spaces_format_02X [of b]
    by (simp add: remove_spaces_def compact_hex_def)
qed (simp_all add: remove_spaces_def compact_hex_def remove_spaces_format_02X [unfolded remove_spaces_def])

lemma comm_roundtrip: "comm_hex_to_bytes (bytes_to_hex_string bs) = Inr bs"
  by (simp only: comm_hex_to_bytes_def bytes_to_hex_string_def replace_0x_rendering
      remove_spaces_join fromhex_compact)


lemma replace_0x_compact: "replace_0x (compact_hex bs) = compact_hex bs"
proof (induction bs)
  case Nil
  show ?case by (simp add: compact_hex_def)
next
  case (Cons b bs)
  have "compact_hex bs = [] \<or> hd (compact_hex bs) \<noteq> CHR ''x''"
    by (cases bs) (simp_all add: compact_hex_def format_02X_def hex_digit_neq nibbles)
  then have "replace_0x (format_02X b @ compact_hex bs) = format_02X b @ replace_0x (compact_hex bs)"
    by (rule replace_0x_format_02X)
  with Cons show ?case by (simp add: compact_hex_def)
qed

lemma remove_spaces_compact: "remove_spaces (compact_hex bs) = compact_hex bs"
  by (induction bs)
    (simp_all add: compact_hex_def remove_spaces_def format_02X_def hex_digit_neq nibbles)

lemma comm_compact: "comm_hex_to_bytes (compact_hex bs) = Inr bs"
  by (simp only: comm_hex_to_bytes_def replace_0x_compact remove_spaces_compact fromhex_compact)

lemma not_prefix_0x_compact: "\<not> prefix ''0x'' (compact_hex bs)"
  by (cases bs)
    (simp_all add: compact_hex_def format_02X_def hex_digit_neq(1) [THEN not_sym] nibbles)

lemma protocol_compact: "protocol_hex_to_bytes (compact_hex bs) = Inr bs"
  by (simp add: protocol_hex_to_bytes_def not_prefix_0x_compact remove_spaces_compact
      fromhex_compact)


lemma split_acc_no_space:
  "list_all (\<lambda>c. \<not> str_space c) t \<Longrightarrow>
   split_acc (t @ rest) w = split_acc rest (w @ t)"
  by (induction t arbitrary: w) simp_all

lemma hex_token_no_space: "list_all (\<lambda>c. \<not> str_space c) (hex_token b)"
proof -
  have "\<not> str_space CHR ''0''" "\<not> str_space CHR ''x''"
    by (simp_all add: str_space_def)
  then show ?thesis
    by (simp add: hex_token_def format_02X_def str_space_hex_digit nibbles)
qed

lemma split_acc_tokens:
  "split_acc (join '' '' (map hex_token bs)) [] = map hex_token bs"
proof (induction bs rule: induct_list012)
  case 1
  show ?case by simp
next
  case (2 b)
  show ?case
    using split_acc_no_space [OF hex_token_no_space, of b "[]" "[]"] by (simp add: hex_token_def)
next
  case (3 b c bs)
  have "split_acc (hex_token b @ ('' '' @ join '' '' (map hex_token (c # bs)))) []
        = split_acc ('' '' @ join '' '' (map hex_token (c # bs))) ([] @ hex_token b)"
    by (rule split_acc_no_space [OF hex_token_no_space])
  also have "\<dots> = hex_token b # split_acc (join '' '' (map hex_token (c # bs))) []"
    by (simp add: str_space_def hex_token_def)
  finally show ?case using 3 by simp
qed

lemma digits_value_format_02X: "digits_value (format_02X b) 0 = Some (unat b)"
  by (simp add: format_02X_def hexval_hex_digit nibbles)

lemma int16_hex_token: "int16 (hex_token b) = Inr (uint b)"
proof -
  have "CHR ''_'' \<notin> set (format_02X b)"
    using hex_digit_neq(3) [OF nibbles(1), of b] hex_digit_neq(3) [OF nibbles(2), of b]
    by (auto simp add: format_02X_def)
  moreover have "format_02X b \<noteq> []" by (simp add: format_02X_def)
  ultimately show ?thesis
    by (simp add: int16_def hex_token_def digits_value_format_02X)
qed

lemma ints_of_tokens_rendering:
  "ints_of_tokens (map hex_token bs) = Inr (map uint bs)"
  by (induction bs) (simp_all add: int16_hex_token)

lemma bytes_of_ints_rendering: "bytes_of_ints (map uint bs) = Inr (bs :: byte list)"
proof -
  have "list_all (\<lambda>v. 0 \<le> v \<and> v < 256) (map uint bs)"
  proof (induction bs)
    case (Cons b bs)
    have "uint b < 256" using uint_bounded [of b] by simp
    with Cons show ?case by simp
  qed simp
  moreover have "map of_int (map uint bs) = bs"
    by (induction bs) simp_all
  ultimately show ?thesis by (simp add: bytes_of_ints_def)
qed

lemma prefix_0x_rendering: "prefix ''0x'' (bytes_to_hex_string bs) = (bs \<noteq> [])"
  by (induction bs rule: induct_list012) (simp_all add: bytes_to_hex_string_def hex_token_def)

lemma protocol_roundtrip: "protocol_hex_to_bytes (bytes_to_hex_string bs) = Inr bs"
proof (cases "bs = []")
  case True
  then show ?thesis
    by (simp add: protocol_hex_to_bytes_def bytes_to_hex_string_def remove_spaces_def)
next
  case False
  have "split (bytes_to_hex_string bs) = map hex_token bs"
    by (simp only: split_def bytes_to_hex_string_def split_acc_tokens)
  then show ?thesis
    using False
    by (simp add: protocol_hex_to_bytes_def prefix_0x_rendering ints_of_tokens_rendering
        bytes_of_ints_rendering)
qed

text \<open>
  Claim C10. Parsing the hex display of a byte sequence gives the sequence back:
  for every \<open>b\<close>, both \<open>hex_to_bytes\<close> functions return \<open>b\<close> on
  \<open>bytes_to_hex_string b\<close> (the form \<open>0x3C 0x80 ...\<close>) and on the compact form
  \<open>3C80...\<close> of \<open>b\<close>.
\<close>

theorem hex_to_bytes_roundtrip:
  "comm_hex_to_bytes (bytes_to_hex_string b) = Inr b
   \<and> protocol_hex_to_bytes (bytes_to_hex_string b) = Inr b
   \<and> comm_hex_to_bytes (compact_hex b) = Inr b
   \<and> protocol_hex_to_bytes (compact_hex b) = Inr b"
  by (simp only: comm_roundtrip protocol_roundtrip comm_compact protocol_compact simp_thms)

subsection \<open>Senders\<close>

lemma byte_ops_cong:
  "(\<And>i b. k \<le> i \<Longrightarrow> f i b = g i b) \<Longrightarrow> byte_ops f k bs = byte_ops g k bs"
  by (induction bs arbitrary: k) simp_all

lemma send_remaining_ops:
  assumes ok: "\<And>w'. wr_ok e w'"
  shows "send_remaining e d bs w =
     (True, w\<lparr>ops := ops w @ byte_ops (\<lambda>i b. [Sleep (if b = 0x5C then 10 else d)]) k bs\<rparr>)"
proof (induction bs arbitrary: w k)
  case Nil
  show ?case by simp
next
  case (Cons b bs)
  show ?case
    by (simp add: port_write_def ok do_op_def Cons [where k = "Suc k"])
qed

lemma precise_timing_ops:
  assumes ok: "\<And>w'. wr_ok e w'" and op: "is_open w"
  shows "send_command_with_precise_timing e bs d w =
     (Returned True,
      w\<lparr>ops := ops w @ byte_ops (\<lambda>i b. [Sleep (claimed_delay d i b)]) 0 bs @ [Sleep 20]\<rparr>)"
proof -
  let ?g = "\<lambda>i b. [Sleep (if b = 0x5C then 10 else d)]"
  let ?f = "\<lambda>i b. [Sleep (claimed_delay d i b)]"
  have tail: "byte_ops ?f (Suc 0) xs = byte_ops ?g (Suc 0) xs" for xs
    by (rule byte_ops_cong) (simp add: claimed_delay_def)
  show ?thesis
  proof (cases "bs \<noteq> [] \<and> hd bs = 0x3C")
    case True
    then obtain xs where bs: "bs = 0x3C # xs" by (cases bs) auto
    have c0: "claimed_delay d 0 0x3C = 20" by (simp add: claimed_delay_def)
    show ?thesis
      unfolding bs
      by (simp add: send_command_with_precise_timing_def op port_write_def ok do_op_def
          send_remaining_ops [OF ok, where k = "Suc 0"] tail c0)
  next
    case False
    show ?thesis
    proof (cases bs)
      case Nil
      then show ?thesis
        by (simp add: send_command_with_precise_timing_def op do_op_def)
    next
      case (Cons b xs)
      with False have nb: "b \<noteq> 0x3C" by simp
      then have c: "claimed_delay d 0 b = (if b = 0x5C then 10 else d)"
        by (simp add: claimed_delay_def)
      show ?thesis
        unfolding Cons using nb
        by (simp add: send_command_with_precise_timing_def op do_op_def
          send_remaining_ops [OF ok, where k = 0] tail c)
    qed
  qed
qed

lemma send_bytes_loop_ops:
  assumes ok: "\<And>w'. wr_ok e w'"
  shows "send_bytes_loop e d bs w =
     (True, w\<lparr>ops := ops w @ byte_ops (\<lambda>i b. if Suc i < k + length bs then [Sleep d] else []) k bs\<rparr>)"
proof (induction bs arbitrary: w k)
  case Nil
  show ?case by simp
next
  case (Cons b xs)
  let ?w1 = "w\<lparr>ops := ops w @ [Write [b], Flush]\<rparr>"
  let ?w2 = "if xs \<noteq> [] then do_op (Sleep d) ?w1 else ?w1"
  have "send_bytes_loop e d (b # xs) w = send_bytes_loop e d xs ?w2"
    by (simp add: port_write_def ok do_op_def)
  also have "\<dots> = (True, ?w2\<lparr>ops := ops ?w2 @
      byte_ops (\<lambda>i b. if Suc i < Suc k + length xs then [Sleep d] else []) (Suc k) xs\<rparr>)"
    by (rule Cons)
  finally show ?case by (simp add: do_op_def)
qed

lemma send_bytes_with_delay_ops:
  assumes ok: "\<And>w'. wr_ok e w'" and hex: "comm_hex_to_bytes hex = Inr bs"
  shows "send_bytes_with_delay e name hex d w =
     (True, w\<lparr>log := log w @ [Sending name],
              ops := ops w @ byte_ops (\<lambda>i b. if Suc i < length bs then [Sleep d] else []) 0 bs
                     @ [Sleep 20]\<rparr>)"
  by (simp add: send_bytes_with_delay_def hex send_bytes_loop_ops [OF ok, where k = 0]
      do_log_def do_op_def)

text \<open>
  Claim C6, as amended. On an open port that accepts every write,
  \<open>send_command_with_precise_timing\<close> (pantilt_protocol.py) writes and flushes every
  byte on its own; a leading start marker 0x3C is followed by 20 ms, every byte 0x5C by
  10 ms and every other byte by \<open>byte_delay_ms\<close>, and 20 ms of settling end the call.
  \<open>send_bytes_with_delay\<close> (pantilt_comm.py) also writes and flushes every byte on
  its own, but follows every byte except the last with the uniform \<open>delay_ms\<close>,
  whatever the byte, and the last byte with the 20 ms settling only.
\<close>

theorem paced_sender_ops:
  assumes "\<And>w'. wr_ok e w'" and "is_open w" and "comm_hex_to_bytes hex = Inr bs"
  shows "send_command_with_precise_timing e bs d w =
           (Returned True,
            w\<lparr>ops := ops w @ byte_ops (\<lambda>i b. [Sleep (claimed_delay d i b)]) 0 bs @ [Sleep 20]\<rparr>)
         \<and> send_bytes_with_delay e name hex d w =
           (True,
            w\<lparr>log := log w @ [Sending name],
              ops := ops w @ byte_ops (\<lambda>i b. if Suc i < length bs then [Sleep d] else []) 0 bs
                     @ [Sleep 20]\<rparr>)"
  using precise_timing_ops [OF assms(1,2)] send_bytes_with_delay_ops [OF assms(1,3)]
  by simp

lemma hex_3C_5C_80_7C:
  "comm_hex_to_bytes ''0x3C 0x5C 0x80 0x7C'' = Inr [0x3C, 0x5C, 0x80, 0x7C]"
  by (simp add: comm_hex_to_bytes_def remove_spaces_def hexval_def ascii_space_def)

theorem paced_sender_ops_witness:
  "(\<forall>w'. wr_ok silent_env w') \<and> is_open fresh_world
   \<and> comm_hex_to_bytes ''0x3C 0x5C 0x80 0x7C'' = Inr [0x3C, 0x5C, 0x80, 0x7C]
   \<and> send_command_with_precise_timing silent_env [0x3C, 0x5C, 0x80, 0x7C] 5 fresh_world =
       (Returned True,
        fresh_world\<lparr>ops := [Write [0x3C], Flush, Sleep 20, Write [0x5C], Flush, Sleep 10,
          Write [0x80], Flush, Sleep 5, Write [0x7C], Flush, Sleep 5, Sleep 20]\<rparr>)
   \<and> send_bytes_with_delay silent_env ''INIT'' ''0x3C 0x5C 0x80 0x7C'' 5 fresh_world =
       (True,
        fresh_world\<lparr>log := [Sending ''INIT''],
          ops := [Write [0x3C], Flush, Sleep 5, Write [0x5C], Flush, Sleep 5,
          Write [0x80], Flush, Sleep 5, Write [0x7C], Flush, Sleep 20]\<rparr>)"
proof -
  have ok: "\<And>w'. wr_ok silent_env w'" by (simp add: silent_env_def)
  have op: "is_open fresh_world" by (simp add: fresh_world_def)
  show ?thesis
    using paced_sender_ops [OF ok op hex_3C_5C_80_7C, of 5 "''INIT''"] ok op hex_3C_5C_80_7C
    by (simp add: claimed_delay_def fresh_world_def)
qed

text \<open>
  The claim as stated fails for \<open>send_bytes_with_delay\<close>: on 3C 5C 7C with the
  default delay the start marker and the byte 0x5C are both followed by 5 ms.
\<close>

theorem send_bytes_with_delay_counterexample:
  "ops (snd (send_bytes_with_delay silent_env ''INIT'' ''0x3C 0x5C 0x7C'' 5 fresh_world)) =
     [Write [0x3C], Flush, Sleep 5, Write [0x5C], Flush, Sleep 5, Write [0x7C], Flush, Sleep 20]
   \<and> ops (snd (send_bytes_with_delay silent_env ''INIT'' ''0x3C 0x5C 0x7C'' 5 fresh_world)) \<noteq>
     byte_ops (\<lambda>i b. [Sleep (claimed_delay 5 i b)]) 0 [0x3C, 0x5C, 0x7C] @ [Sleep 20]"
  by (simp add: send_bytes_with_delay_def comm_hex_to_bytes_def remove_spaces_def hexval_def
      ascii_space_def port_write_def silent_env_def fresh_world_def do_op_def do_log_def
      claimed_delay_def)

subsection \<open>Receivers\<close>

lemma concat_take_Suc:
  "concat (take (Suc m) arr) = next_arrival arr @ concat (take m (tl arr))"
  by (cases arr) (simp_all add: next_arrival_def)

lemma receive_loop_inv:
  "receive_loop n mb ee arr response k = (r, k', why) \<Longrightarrow>
   why \<noteq> ByteCount \<and> k \<le> k' \<and> r = response @ concat (take (k' - k) arr)
   \<and> (why = Deadline \<longrightarrow> k' = k + n)
   \<and> (why = EndMarker \<longrightarrow> k + 2 \<le> k' \<and> k' \<le> k + n + 1
        \<and> end_seen mb ee (response @ concat (take (k' - k - 1) arr)))"
proof (induction n arbitrary: arr response k)
  case 0
  then show ?case by auto
next
  case (Suc n)
  show ?case
  proof (cases "next_arrival arr = []")
    case True
    with Suc.prems have rec: "receive_loop n mb ee (tl arr) response (Suc k) = (r, k', why)"
      by simp
    from Suc.IH [OF rec] have ih:
      "why \<noteq> ByteCount" "Suc k \<le> k'" "r = response @ concat (take (k' - Suc k) (tl arr))"
      "why = Deadline \<longrightarrow> k' = Suc k + n"
      "why = EndMarker \<longrightarrow> Suc k + 2 \<le> k' \<and> k' \<le> Suc k + n + 1
        \<and> end_seen mb ee (response @ concat (take (k' - Suc k - 1) (tl arr)))"
      by auto
    from ih(2) have km: "k' - k = Suc (k' - Suc k)" by arith
    have c: "concat (take (k' - k) arr) = concat (take (k' - Suc k) (tl arr))"
      unfolding km using True by (simp add: concat_take_Suc)
    have d: "why = EndMarker \<Longrightarrow> concat (take (k' - k - 1) arr) = concat (take (k' - Suc k - 1) (tl arr))"
    proof -
      assume "why = EndMarker"
      with ih(5) have "Suc k + 2 \<le> k'" by simp
      then have "k' - k - 1 = Suc (k' - Suc k - 1)" by arith
      then show ?thesis using True by (simp add: concat_take_Suc)
    qed
    show ?thesis using ih c d by auto
  next
    case False
    show ?thesis
    proof (cases "end_seen mb ee (response @ next_arrival arr)")
      case True
      with False Suc.prems have
        "r = response @ next_arrival arr @ next_arrival (tl arr)" "k' = k + 2" "why = EndMarker"
        by (auto simp add: Let_def)
      moreover have "concat (take 2 arr) = next_arrival arr @ next_arrival (tl arr)"
        by (cases arr; cases "tl arr") (auto simp add: next_arrival_def numeral_2_eq_2)
      moreover have "concat (take 1 arr) = next_arrival arr"
        by (cases arr) (auto simp add: next_arrival_def)
      ultimately show ?thesis using True by simp
    next
      case nend: False
      with False Suc.prems have rec:
        "receive_loop n mb ee (tl arr) (response @ next_arrival arr) (Suc k) = (r, k', why)"
        by (simp add: Let_def)
      from Suc.IH [OF rec] have ih:
        "why \<noteq> ByteCount" "Suc k \<le> k'"
        "r = (response @ next_arrival arr) @ concat (take (k' - Suc k) (tl arr))"
        "why = Deadline \<longrightarrow> k' = Suc k + n"
        "why = EndMarker \<longrightarrow> Suc k + 2 \<le> k' \<and> k' \<le> Suc k + n + 1
          \<and> end_seen mb ee ((response @ next_arrival arr) @ concat (take (k' - Suc k - 1) (tl arr)))"
        by auto
      from ih(2) have km: "k' - k = Suc (k' - Suc k)" by arith
      have c: "concat (take (k' - k) arr) = next_arrival arr @ concat (take (k' - Suc k) (tl arr))"
        unfolding km by (simp add: concat_take_Suc)
      have d: "why = EndMarker \<Longrightarrow>
        concat (take (k' - k - 1) arr) = next_arrival arr @ concat (take (k' - Suc k - 1) (tl arr))"
      proof -
        assume "why = EndMarker"
        with ih(5) have "Suc k + 2 \<le> k'" by simp
        then have "k' - k - 1 = Suc (k' - Suc k - 1)" by arith
        then show ?thesis by (simp add: concat_take_Suc)
      qed
      show ?thesis using ih c d by auto
    qed
  qed
qed

lemma read_loop_to_end:
  "0x7C \<notin> set xs \<Longrightarrow> length xs < n \<Longrightarrow> int (length buffer + length xs) < mb \<Longrightarrow>
   read_loop n mb (xs @ 0x7C # rest) arr True buffer raw =
     (buffer @ xs @ [0x7C], raw @ xs @ [0x7C], EndMarker)"
proof (induction xs arbitrary: n arr buffer raw rest)
  case Nil
  then obtain n' where n: "n = Suc n'" by (cases n) auto
  show ?case using Nil unfolding n by simp
next
  case (Cons x xs)
  then obtain n' where n: "n = Suc n'" by (cases n) auto
  have x: "x \<noteq> 0x7C" using Cons.prems(1) by auto
  have "read_loop n mb ((x # xs) @ 0x7C # rest) arr True buffer raw =
        read_loop n' mb (xs @ 0x7C # (rest @ next_arrival arr)) (tl arr) True (buffer @ [x]) (raw @ [x])"
    unfolding n using Cons.prems x by simp
  also have "\<dots> = ((buffer @ [x]) @ xs @ [0x7C], (raw @ [x]) @ xs @ [0x7C], EndMarker)"
    using Cons.prems by (intro Cons.IH) (auto simp add: n)
  finally show ?case by simp
qed

lemma read_loop_burst:
  assumes "0x7C \<notin> set payload" "length payload + 2 \<le> n" "int (length payload) + 2 \<le> mb"
  shows "read_loop n mb [] [0x3C # payload @ [0x7C]] False [] [] =
     (0x3C # payload @ [0x7C], 0x3C # payload @ [0x7C], EndMarker)"
proof -
  from assms(2) obtain n' where n: "n = Suc n'" by (cases n) auto
  have "read_loop n mb [] [0x3C # payload @ [0x7C]] False [] [] =
        read_loop n' mb (payload @ 0x7C # []) [] True [0x3C] [0x3C]"
    unfolding n using assms(3) by (simp add: next_arrival_def)
  also have "\<dots> = ([0x3C] @ payload @ [0x7C], [0x3C] @ payload @ [0x7C], EndMarker)"
    using assms by (intro read_loop_to_end) (auto simp add: n)
  finally show ?thesis by simp
qed




lemma dropWhile_snoc_start:
  "x \<notin> set raw \<Longrightarrow> dropWhile (\<lambda>b. b \<noteq> x) (raw @ [y]) = (if y = x then [y] else [])"
  by (induction raw) auto

lemma dropWhile_snoc_more:
  "x \<in> set raw \<Longrightarrow>
   dropWhile (\<lambda>b. b \<noteq> x) (raw @ [y]) = dropWhile (\<lambda>b. b \<noteq> x) raw @ [y]"
  by (induction raw) auto

lemma start_seen:
  "buffer = dropWhile (\<lambda>b. b \<noteq> x) raw \<Longrightarrow> (buffer \<noteq> []) = (x \<in> set raw)"
  by (auto simp add: dropWhile_eq_Nil_conv)

lemma last_in_tl: "2 \<le> length xs \<Longrightarrow> last xs \<in> set (tl xs)"
  by (cases xs) auto

lemma no_end_in_tl:
  "0x7C \<notin> set (tl (buffer :: byte list)) \<Longrightarrow> \<not> (2 \<le> length buffer \<and> last buffer = 0x7C)"
  using last_in_tl [of buffer] by auto

lemma read_loop_exact:
  "read_loop n mb q arr fs buffer raw = (B, R, why) \<Longrightarrow>
   buffer = dropWhile (\<lambda>b. b \<noteq> 0x3C) raw \<Longrightarrow> fs = (buffer \<noteq> []) \<Longrightarrow>
   int (length buffer) \<le> max mb 0 \<Longrightarrow> 0x7C \<notin> set (tl buffer) \<Longrightarrow>
   (\<exists>r. R = raw @ r \<and> prefix r (readable n q arr) \<and> (why = Deadline \<longrightarrow> r = readable n q arr))
   \<and> B = dropWhile (\<lambda>b. b \<noteq> 0x3C) R
   \<and> int (length B) \<le> max mb 0
   \<and> 0x7C \<notin> set (butlast (tl B))
   \<and> (why = ByteCount \<longrightarrow> mb \<le> int (length B))
   \<and> (why = EndMarker) = (2 \<le> length B \<and> last B = 0x7C)"
proof (induction n arbitrary: q arr fs buffer raw)
  case 0
  then show ?case using no_end_in_tl [of buffer] by (auto dest: in_set_butlastD)
next
  case (Suc n)
  show ?case
  proof (cases "int (length buffer) < mb")
    case False
    with Suc.prems show ?thesis using no_end_in_tl [of buffer] by (auto dest: in_set_butlastD)
  next
    case True
    show ?thesis
    proof (cases "q @ next_arrival arr")
      case Nil
      with Suc.prems(1) True have "read_loop n mb [] (tl arr) fs buffer raw = (B, R, why)"
        by simp
      from Suc.IH [OF this Suc.prems(2-5)] Nil show ?thesis by auto
    next
      case (Cons b q')
      consider (start) "\<not> fs" "b = 0x3C" | (stop) "fs" "b = 0x7C" | (more) "fs" "b \<noteq> 0x7C"
        | (junk) "\<not> fs" "b \<noteq> 0x3C" by blast
      then show ?thesis
      proof cases
        case start
        with Suc.prems(1) True Cons
        have l: "read_loop n mb q' (tl arr) True [b] (raw @ [b]) = (B, R, why)" by simp
        have d: "[b] = dropWhile (\<lambda>b. b \<noteq> 0x3C) (raw @ [b])"
          using start Suc.prems(3) start_seen [OF Suc.prems(2)] by (simp add: dropWhile_snoc_start)
        have f: "True = ([b] \<noteq> [])" "int (length [b]) \<le> max mb 0" "0x7C \<notin> set (tl [b])"
          using True by simp_all
        from Suc.IH [OF l d f] Cons show ?thesis by auto
      next
        case stop
        with Suc.prems True Cons have res: "B = buffer @ [b]" "R = raw @ [b]" "why = EndMarker"
          by auto
        have ne: "buffer \<noteq> []" using stop Suc.prems(3) by simp
        have "B = dropWhile (\<lambda>b. b \<noteq> 0x3C) R"
          using res ne Suc.prems(2) start_seen [OF Suc.prems(2)] by (simp add: dropWhile_snoc_more)
        moreover have "0x7C \<notin> set (butlast (tl B))"
          using res ne Suc.prems(5) by (cases buffer) (simp_all add: butlast_append)
        moreover have "int (length B) \<le> max mb 0" using res True by simp
        moreover have "2 \<le> length B \<and> last B = 0x7C" using res ne stop by (cases buffer) simp_all
        ultimately show ?thesis using res Cons by auto
      next
        case more
        with Suc.prems(1) True Cons
        have l: "read_loop n mb q' (tl arr) True (buffer @ [b]) (raw @ [b]) = (B, R, why)" by simp
        have ne: "buffer \<noteq> []" using more Suc.prems(3) by simp
        have d: "buffer @ [b] = dropWhile (\<lambda>b. b \<noteq> 0x3C) (raw @ [b])"
          using ne Suc.prems(2) start_seen [OF Suc.prems(2)] by (simp add: dropWhile_snoc_more)
        have t: "0x7C \<notin> set (tl (buffer @ [b]))"
          using ne more Suc.prems(5) by (cases buffer) simp_all
        have f: "True = (buffer @ [b] \<noteq> [])" "int (length (buffer @ [b])) \<le> max mb 0"
          using True by simp_all
        from Suc.IH [OF l d f t] Cons show ?thesis by auto
      next
        case junk
        with Suc.prems(1) True Cons
        have l: "read_loop n mb q' (tl arr) fs buffer (raw @ [b]) = (B, R, why)" by simp
        have e: "buffer = []" using junk Suc.prems(3) by simp
        have d: "buffer = dropWhile (\<lambda>b. b \<noteq> 0x3C) (raw @ [b])"
          using e junk start_seen [OF Suc.prems(2)] by (simp add: dropWhile_snoc_start)
        from Suc.IH [OF l d Suc.prems(3,4,5)] Cons show ?thesis by auto
      qed
    qed
  qed
qed

text \<open>
  Claim C5, as amended. Whatever arrives, the loop of \<open>receive_response\<close>
  (pantilt_comm.py, pantilt_protocol.py) stops only at the deadline, after all polls
  the deadline allows, or at the early exit, where the end marker has been seen and the
  length has reached \<open>min_bytes\<close>; it never stops on a byte count, and it returns every
  byte of every poll it made, the grace drain included. The loop of \<open>read_response\<close>
  (pantilt_simulator.py) is different. It reads one byte per poll and stops at the
  deadline, as soon as its framed buffer holds \<open>max_bytes\<close> bytes, or at the first end
  marker after a start marker, whichever comes first: the bytes read are an initial
  part of what the deadline would allow, and all of it when the deadline stopped the
  loop; the buffer is what was read from the first start marker on, so the bytes before
  that marker are dropped; it never holds more than \<open>max_bytes\<close> bytes and has no end
  marker before its last byte. \<open>read_response\<close> returns the buffer, or all bytes read
  when no start marker was seen.
\<close>

theorem receive_loops_stop:
  "(receive_loop n min_bytes expected_end arr [] 0 = (r, k, why) \<longrightarrow>
      why \<noteq> ByteCount \<and> r = concat (take k arr) \<and> (why = Deadline \<longrightarrow> k = n)
      \<and> (why = EndMarker \<longrightarrow>
            2 \<le> k \<and> k \<le> n + 1 \<and> end_seen min_bytes expected_end (concat (take (k - 1) arr))))
   \<and> (read_loop m max_bytes [] arr' False [] [] = (B, R, why') \<longrightarrow>
        suffix B R \<and> (why' = ByteCount \<longrightarrow> max_bytes \<le> int (length B))
        \<and> (why' = EndMarker \<longrightarrow> complete B)
        \<and> prefix R (readable m [] arr')
        \<and> (why' = Deadline \<longrightarrow> R = readable m [] arr')
        \<and> B = dropWhile (\<lambda>b. b \<noteq> 0x3C) R
        \<and> int (length B) \<le> max max_bytes 0
        \<and> 0x7C \<notin> set (butlast (tl B))
        \<and> (why' = EndMarker) = (2 \<le> length B \<and> last B = 0x7C)
        \<and> (rx e w = (m, arr') \<longrightarrow>
              fst (read_response e expected_type max_bytes w) = (if B = [] then R else B)))"
proof -
  have a: "why \<noteq> ByteCount \<and> r = concat (take k arr) \<and> (why = Deadline \<longrightarrow> k = n)
      \<and> (why = EndMarker \<longrightarrow>
            2 \<le> k \<and> k \<le> n + 1 \<and> end_seen min_bytes expected_end (concat (take (k - 1) arr)))"
    if "receive_loop n min_bytes expected_end arr [] 0 = (r, k, why)"
    using receive_loop_inv [OF that] by auto
  have b: "suffix B R \<and> (why' = ByteCount \<longrightarrow> max_bytes \<le> int (length B))
        \<and> (why' = EndMarker \<longrightarrow> complete B)
        \<and> prefix R (readable m [] arr')
        \<and> (why' = Deadline \<longrightarrow> R = readable m [] arr')
        \<and> B = dropWhile (\<lambda>b. b \<noteq> 0x3C) R
        \<and> int (length B) \<le> max max_bytes 0
        \<and> 0x7C \<notin> set (butlast (tl B))
        \<and> (why' = EndMarker) = (2 \<le> length B \<and> last B = 0x7C)
        \<and> (rx e w = (m, arr') \<longrightarrow>
              fst (read_response e expected_type max_bytes w) = (if B = [] then R else B))"
    if l: "read_loop m max_bytes [] arr' False [] [] = (B, R, why')"
  proof -
    from read_loop_exact [OF l] have x:
      "prefix R (readable m [] arr')" "why' = Deadline \<longrightarrow> R = readable m [] arr'"
      "B = dropWhile (\<lambda>b. b \<noteq> 0x3C) R" "int (length B) \<le> max max_bytes 0"
      "0x7C \<notin> set (butlast (tl B))" "why' = ByteCount \<longrightarrow> max_bytes \<le> int (length B)"
      "(why' = EndMarker) = (2 \<le> length B \<and> last B = 0x7C)"
      by auto
    have s: "suffix B R" unfolding x(3) by (rule suffix_dropWhile)
    have c: "why' = EndMarker \<longrightarrow> complete B" using x(7) by (auto simp add: complete_def)
    have f: "rx e w = (m, arr') \<longrightarrow>
        fst (read_response e expected_type max_bytes w) = (if B = [] then R else B)"
      using l by (simp add: read_response_def)
    from x s c f show ?thesis by simp
  qed
  from a b show ?thesis by blast
qed

lemma receive_loop_example:
  "receive_loop 5 1 (Some [0x7C]) [[0x3C], [], [0x80, 0x7C], [0x01], [0x02]] [] 0 =
     ([0x3C, 0x80, 0x7C, 0x01], 4, EndMarker)"
  by code_simp

lemma read_loop_example:
  "read_loop 10 50 [] [[0x00, 0x3C, 0x80], [], [0x7C, 0x99]] False [] [] =
     ([0x3C, 0x80, 0x7C], [0x00, 0x3C, 0x80, 0x7C], EndMarker)"
  by code_simp

theorem receive_loops_stop_witness:
  "receive_loop 5 1 (Some [0x7C]) [[0x3C], [], [0x80, 0x7C], [0x01], [0x02]] [] 0 =
     ([0x3C, 0x80, 0x7C, 0x01], 4, EndMarker)
   \<and> [0x3C, 0x80, 0x7C, 0x01] = concat (take 4 [[0x3C], [], [0x80, 0x7C], [0x01], [0x02 :: byte]])
   \<and> end_seen 1 (Some [0x7C]) (concat (take (4 - 1) [[0x3C], [], [0x80, 0x7C], [0x01], [0x02]]))
   \<and> read_loop 10 50 [] [[0x00, 0x3C, 0x80], [], [0x7C, 0x99]] False [] [] =
     ([0x3C, 0x80, 0x7C], [0x00, 0x3C, 0x80, 0x7C], EndMarker)
   \<and> suffix [0x3C, 0x80, 0x7C] [0x00, 0x3C, 0x80, 0x7C :: byte]
   \<and> complete [0x3C, 0x80, 0x7C]"
  using receive_loops_stop [of 5 1 "Some [0x7C]" "[[0x3C], [], [0x80, 0x7C], [0x01], [0x02]]"
      "[0x3C, 0x80, 0x7C, 0x01]" 4 EndMarker 10 50 "[[0x00, 0x3C, 0x80], [], [0x7C, 0x99]]"
      "[0x3C, 0x80, 0x7C]" "[0x00, 0x3C, 0x80, 0x7C]" EndMarker silent_env fresh_world "''sync''"]
    receive_loop_example read_loop_example
  by simp

text \<open>
  The claim as stated fails for \<open>read_response\<close>: with the default \<open>max_bytes = 50\<close>
  and 100 polls before the deadline, a start marker followed by 60 bytes and an end
  marker is cut after 50 bytes, before either the deadline or the end marker; and of the
  three bytes 00 3C 7C read from the port only the last two are returned.
\<close>

lemma read_loop_cut:
  "read_loop 100 50 [] [0x3C # replicate 60 0x80 @ [0x7C]] False [] [] =
     (0x3C # replicate 49 0x80, 0x3C # replicate 49 0x80, ByteCount)"
  by code_simp

lemma read_loop_junk:
  "read_loop 10 50 [] [[0x00, 0x3C, 0x7C]] False [] [] = ([0x3C, 0x7C], [0x00, 0x3C, 0x7C], EndMarker)"
  by code_simp

theorem read_response_byte_count_counterexample:
  "read_loop 100 50 [] [0x3C # replicate 60 0x80 @ [0x7C]] False [] [] =
     (0x3C # replicate 49 0x80, 0x3C # replicate 49 0x80, ByteCount)
   \<and> fst (read_response (burst_env 10 [0x00, 0x3C, 0x7C]) ''sync'' 50 fresh_world) = [0x3C, 0x7C]"
  using read_loop_cut read_loop_junk
  by (simp add: read_response_def burst_env_def)

text \<open>
  Claim C4, as amended. For every payload that contains neither marker and is at most
  \<open>max_bytes - 2\<close> bytes long (48 with the default \<open>max_bytes = 50\<close>), when the
  bytes 3C, payload, 7C are waiting at the port and the deadline leaves a poll for each
  of them, \<open>read_response\<close> returns exactly these bytes: the result passes the
  completeness test and the bytes between its two markers are the payload.
\<close>

theorem read_response_roundtrip:
  assumes "0x3C \<notin> set payload" and "0x7C \<notin> set payload"
    and "int (length payload) + 2 \<le> max_bytes"
    and "rx e w = (n, [0x3C # payload @ [0x7C]])" and "length payload + 2 \<le> n"
  shows "fst (read_response e expected_type max_bytes w) = 0x3C # payload @ [0x7C]
         \<and> complete (fst (read_response e expected_type max_bytes w))
         \<and> butlast (tl (fst (read_response e expected_type max_bytes w))) = payload"
proof -
  have "fst (read_response e expected_type max_bytes w) = 0x3C # payload @ [0x7C]"
    using read_loop_burst [OF assms(2,5,3)] assms(4) by (simp add: read_response_def)
  then show ?thesis by (simp add: complete_def butlast_append)
qed

theorem read_response_roundtrip_witness:
  "0x3C \<notin> set [0x80 :: byte] \<and> 0x7C \<notin> set [0x80 :: byte]
   \<and> int (length [0x80 :: byte]) + 2 \<le> 50
   \<and> rx (burst_env 10 [0x3C, 0x80, 0x7C]) fresh_world = (10, [0x3C # [0x80] @ [0x7C]])
   \<and> length [0x80 :: byte] + 2 \<le> 10
   \<and> fst (read_response (burst_env 10 [0x3C, 0x80, 0x7C]) ''initialization'' 50 fresh_world) =
       [0x3C, 0x80, 0x7C]
   \<and> complete (fst (read_response (burst_env 10 [0x3C, 0x80, 0x7C]) ''initialization'' 50 fresh_world))
   \<and> butlast (tl (fst (read_response (burst_env 10 [0x3C, 0x80, 0x7C]) ''initialization'' 50
        fresh_world))) = [0x80]"
proof -
  have r: "rx (burst_env 10 [0x3C, 0x80, 0x7C]) fresh_world = (10, [0x3C # [0x80] @ [0x7C]])"
    by (simp add: burst_env_def)
  show ?thesis
    using read_response_roundtrip [of "[0x80]" 50 "burst_env 10 [0x3C, 0x80, 0x7C]" fresh_world 10
        "''initialization''"] r
    by (simp add: complete_def)
qed

text \<open>
  The claim as stated fails for a payload of 49 bytes: the loop of \<open>read_response\<close>
  stops at 50 buffered bytes, before it reads the end marker.
\<close>

lemma read_loop_49:
  "read_loop 100 50 [] [0x3C # replicate 49 0x80 @ [0x7C]] False [] [] =
     (0x3C # replicate 49 0x80, 0x3C # replicate 49 0x80, ByteCount)"
  by code_simp

theorem read_response_roundtrip_counterexample:
  "0x3C \<notin> set (replicate 49 (0x80 :: byte)) \<and> 0x7C \<notin> set (replicate 49 (0x80 :: byte))
   \<and> fst (read_response (burst_env 100 (0x3C # replicate 49 0x80 @ [0x7C])) ''initialization'' 50
        fresh_world) = 0x3C # replicate 49 0x80
   \<and> \<not> complete (fst (read_response (burst_env 100 (0x3C # replicate 49 0x80 @ [0x7C]))
        ''initialization'' 50 fresh_world))"
proof -
  have "fst (read_response (burst_env 100 (0x3C # replicate 49 0x80 @ [0x7C])) ''initialization'' 50
        fresh_world) = 0x3C # replicate 49 0x80"
    using read_loop_49 by (simp add: read_response_def burst_env_def)
  then show ?thesis by (simp add: complete_def)
qed

subsection \<open>The handshake of pantilt_comm.py\<close>

lemma do_op_fields:
  "ops (do_op x w) = ops w @ [x]" "log (do_op x w) = log w" "is_open (do_op x w) = is_open w"
  "rts (do_op x w) = rts w" "dtr (do_op x w) = dtr w" "cfg (do_op x w) = cfg w"
  by (simp_all add: do_op_def)

lemma do_log_fields:
  "ops (do_log x w) = ops w" "log (do_log x w) = log w @ [x]" "is_open (do_log x w) = is_open w"
  "rts (do_log x w) = rts w" "dtr (do_log x w) = dtr w" "cfg (do_log x w) = cfg w"
  by (simp_all add: do_log_def)

lemma fresh_world_fields:
  "ops fresh_world = []" "log fresh_world = []" "is_open fresh_world"
  "rts fresh_world = False" "dtr fresh_world = False" "cfg fresh_world = None"
  by (simp_all add: fresh_world_def)




































































subsection \<open>Heartbeat cycles\<close>









lemma heartbeat_in_COMMANDS: "map_of COMMANDS ''heartbeat'' = Some heartbeat_bytes"
  by (simp add: COMMANDS_def)



















subsection \<open>Configuration sweeps\<close>



















subsection \<open>The command table of the simulator\<close>

text \<open>
  Claim C8, as amended. \<open>send_command\<close> (pantilt_simulator.py) validates no markers:
  for a command type of the table it logs the transaction and writes the table entry
  unchanged, whether or not the entry starts with 0x3C and ends with 0x7C, and returns
  success when the write succeeds and failure when it raises; for an unknown command
  type it returns failure and writes nothing. The initialization and heartbeat entries
  satisfy the marker invariant; the sync entry, the single byte 0x3C, does not.
\<close>

theorem send_command_writes_table_entry:
  "(map_of COMMANDS u = None \<longrightarrow> sim_send_command e u w = (False, w))
   \<and> (map_of COMMANDS t = Some c \<and> wr_ok e (do_log (TX t c) w) \<longrightarrow>
        sim_send_command e t w = (True, do_op Flush (do_op (Write c) (do_log (TX t c) w))))
   \<and> (map_of COMMANDS t = Some c \<and> \<not> wr_ok e (do_log (TX t c) w) \<longrightarrow>
        sim_send_command e t w = (False, do_log (TX t c) w))
   \<and> marker_invariant initialization_bytes \<and> marker_invariant heartbeat_bytes
   \<and> \<not> marker_invariant sync_bytes"
  by (simp add: sim_send_command_def port_write_def Let_def marker_invariant_def
      initialization_bytes_def heartbeat_bytes_def sync_bytes_def)

theorem send_command_writes_table_entry_witness:
  "map_of COMMANDS ''pan_left'' = None
   \<and> sim_send_command silent_env ''pan_left'' fresh_world = (False, fresh_world)
   \<and> map_of COMMANDS ''heartbeat'' = Some heartbeat_bytes
   \<and> wr_ok silent_env (do_log (TX ''heartbeat'' heartbeat_bytes) fresh_world)
   \<and> sim_send_command silent_env ''heartbeat'' fresh_world =
       (True, do_op Flush (do_op (Write heartbeat_bytes)
                 (do_log (TX ''heartbeat'' heartbeat_bytes) fresh_world)))"
proof -
  have a: "map_of COMMANDS ''pan_left'' = None" by (simp add: COMMANDS_def)
  have b: "wr_ok silent_env (do_log (TX ''heartbeat'' heartbeat_bytes) fresh_world)"
    by (simp add: silent_env_def)
  show ?thesis
    using send_command_writes_table_entry [of "''pan_left''" silent_env fresh_world
        "''heartbeat''" heartbeat_bytes] a b heartbeat_in_COMMANDS
    by simp
qed

text \<open>
  The claim as stated fails: the sync entry violates the marker invariant, since it does
  not end with 0x7C, and \<open>send_command\<close> places it on the wire.
\<close>

theorem malformed_template_counterexample:
  "map_of COMMANDS ''sync'' = Some sync_bytes \<and> \<not> marker_invariant sync_bytes
   \<and> fst (sim_send_command silent_env ''sync'' fresh_world) = True
   \<and> ops (snd (sim_send_command silent_env ''sync'' fresh_world)) = [Write [0x3C], Flush]"
  by (simp add: COMMANDS_def marker_invariant_def sync_bytes_def sim_send_command_def
      port_write_def Let_def silent_env_def do_op_fields do_log_fields fresh_world_fields)

subsection \<open>Responses without a start marker\<close>









end
